theory Spec2Isabelle
  imports Main "HOL-Library.AList"
begin

section \<open>Values, exceptions and the outside world\<close>

text \<open>
  The reader of \<^verbatim>\<open>bb_reader.py\<close> handles parsed YAML and JSON documents.  They are
  modelled as a tree of Python values; a mapping keeps its insertion order, so it is an
  association list.  Keys are compared structurally: Python also identifies the keys
  \<^verbatim>\<open>True\<close> and \<^verbatim>\<open>1\<close>, which the model keeps apart.  Floating point numbers are left
  out; no operation of the reader looks into one.
\<close>

datatype val =
    VNone
  | VBool bool
  | VInt int
  | VStr string
  | VList "val list"
  | VDict "(val \<times> val) list"

text \<open>
  The exceptions that can travel through the reader.  \<open>TokenError\<close> stands for whatever
  \<^verbatim>\<open>_get_oauth_token\<close> re-raises; \<open>UnboundLocalError\<close> is what the bare
  \<^verbatim>\<open>except:\<close> of \<^verbatim>\<open>_request\<close> raises itself, as it reads \<^verbatim>\<open>rsp\<close> before
  any response was bound.
\<close>

datatype exn =
    BBFileLoadFailure
  | BBRequestAuthFail
  | RequestNotOK
  | KeyError
  | TypeError
  | AttributeError
  | ValueError
  | UnboundLocalError
  | TokenError

text \<open>What one call of \<^verbatim>\<open>requests.get\<close> can do: raise an SSL error, raise anything
  else, or return a response with a status code and a body.\<close>

datatype http_outcome =
    SSLError
  | TransportError
  | Response nat string

text \<open>Calls that leave the process, in the order they are made.\<close>

datatype event =
    EvGet string string
  | EvToken

text \<open>
  The primitives the reader consumes.  The remote side is a deterministic world of an
  arbitrary state type \<open>'w\<close>: a GET takes the url and the bearer token, the token endpoint
  may fail (\<open>None\<close>), the clock is read.  The parsers return \<open>None\<close> where the Python
  ones raise.  \<open>py_repr\<close> is Python's rendering of a container inside a format string.
  A reading of the clock is only stored, never computed with, and is kept as an integer.
\<close>

record 'w env =
  http_get :: "string \<Rightarrow> string \<Rightarrow> 'w \<Rightarrow> http_outcome \<times> 'w"
  fetch_token :: "'w \<Rightarrow> string option \<times> 'w"
  clock :: "'w \<Rightarrow> int \<times> 'w"
  json_loads :: "string \<Rightarrow> val option"
  yaml_load :: "string \<Rightarrow> val option"
  py_repr :: "val \<Rightarrow> string"
  bb_rest :: string
  bb_proj :: string

text \<open>
  The cache: context, then org key, then the org's entry.  The entry is a
  \<^verbatim>\<open>defaultdict(dict)\<close> whose keys are \<^verbatim>\<open>'org'\<close>, \<^verbatim>\<open>'space'\<close> and the space names.
\<close>

type_synonym entry = "(val \<times> val) list"
type_synonym orgs = "(string \<times> entry) list"
type_synonym cache = "(string \<times> orgs) list"

text \<open>The fields of \<^verbatim>\<open>BBDirReader\<close> that change, the world, and the record of the
  calls made so far.\<close>

record 'w reader =
  world :: 'w
  auth_token :: string
  contexts :: "string list"
  cache :: cache
  cache_timestamp :: "int option"
  trace :: "event list"

section \<open>Python primitives\<close>

fun truthy :: "val \<Rightarrow> bool" where
  "truthy VNone = False"
| "truthy (VBool b) = b"
| "truthy (VInt i) = (i \<noteq> 0)"
| "truthy (VStr s) = (s \<noteq> [])"
| "truthy (VList xs) = (xs \<noteq> [])"
| "truthy (VDict kvs) = (kvs \<noteq> [])"

text \<open>\<^verbatim>\<open>v[k]\<close> for a string key \<open>k\<close>: only a mapping can answer; a missing key is a
  \<open>KeyError\<close>, any other value a \<open>TypeError\<close>.\<close>

fun getitem_str :: "val \<Rightarrow> string \<Rightarrow> exn + val" where
  "getitem_str (VDict kvs) k =
     (case map_of kvs (VStr k) of None \<Rightarrow> Inl KeyError | Some v \<Rightarrow> Inr v)"
| "getitem_str _ k = Inl TypeError"

text \<open>Iterating a value: a list gives its elements, a mapping its keys, a string its
  characters; nothing else is iterable.\<close>

fun py_iter :: "val \<Rightarrow> exn + val list" where
  "py_iter (VList xs) = Inr xs"
| "py_iter (VDict kvs) = Inr (map fst kvs)"
| "py_iter (VStr s) = Inr (map (\<lambda>c. VStr [c]) s)"
| "py_iter _ = Inl TypeError"

fun hashable :: "val \<Rightarrow> bool" where
  "hashable (VList xs) = False"
| "hashable (VDict kvs) = False"
| "hashable _ = True"

definition digit_char :: "nat \<Rightarrow> char" where
  "digit_char d = char_of (48 + d)"

fun str_nat :: "nat \<Rightarrow> string" where
  "str_nat n = (if n < 10 then [digit_char n] else str_nat (n div 10) @ [digit_char (n mod 10)])"

definition str_int :: "int \<Rightarrow> string" where
  "str_int i = (if i < 0 then CHR ''-'' # str_nat (nat (- i)) else str_nat (nat i))"

text \<open>\<^verbatim>\<open>"{}".format(v)\<close>.\<close>

fun py_str :: "'w env \<Rightarrow> val \<Rightarrow> string" where
  "py_str E VNone = ''None''"
| "py_str E (VBool b) = (if b then ''True'' else ''False'')"
| "py_str E (VInt i) = str_int i"
| "py_str E (VStr s) = s"
| "py_str E v = py_repr E v"

text \<open>\<^verbatim>\<open>str.lower\<close> and \<^verbatim>\<open>str.endswith\<close> on ASCII text.\<close>

definition lower_char :: "char \<Rightarrow> char" where
  "lower_char c =
     (let n = (of_char c :: nat)
      in if of_char CHR ''A'' \<le> n \<and> n \<le> of_char CHR ''Z'' then char_of (n + 32) else c)"

definition lower :: "string \<Rightarrow> string" where
  "lower s = map lower_char s"

definition endswith :: "string \<Rightarrow> string \<Rightarrow> bool" where
  "endswith s t = (length t \<le> length s \<and> drop (length s - length t) s = t)"

definition is_dict_or_list :: "val \<Rightarrow> bool" where
  "is_dict_or_list v = (case v of VDict kvs \<Rightarrow> True | VList xs \<Rightarrow> True | _ \<Rightarrow> False)"

section \<open>Token acquisition and single requests\<close>

text \<open>\<^verbatim>\<open>_get_oauth_token\<close>: any failure of the exchange is logged and raised again.\<close>

definition get_oauth_token :: "'w env \<Rightarrow> 'w reader \<Rightarrow> (exn + string) \<times> 'w reader" where
  "get_oauth_token E s =
     (case fetch_token E (world s) of
        (r, w') \<Rightarrow>
          (let s' = s\<lparr>world := w', trace := trace s @ [EvToken]\<rparr>
           in case r of None \<Rightarrow> (Inl TokenError, s') | Some t \<Rightarrow> (Inr t, s')))"

text \<open>
  \<^verbatim>\<open>_request(url, return_json, _retry_)\<close>.  The text of a response is returned as a
  \<open>VStr\<close>.  \<^verbatim>\<open>rsp.json()\<close> sits in the \<^verbatim>\<open>else\<close> branch, so its \<open>ValueError\<close> is not
  caught here.
\<close>

function request :: "'w env \<Rightarrow> string \<Rightarrow> bool \<Rightarrow> bool \<Rightarrow> 'w reader \<Rightarrow> (exn + val) \<times> 'w reader" where
  "request E url return_json retry s =
     (case http_get E url (auth_token s) (world s) of
        (out, w') \<Rightarrow>
          (let s1 = s\<lparr>world := w', trace := trace s @ [EvGet url (auth_token s)]\<rparr>
           in case out of
                SSLError \<Rightarrow>
                  if \<not> retry then
                    (case get_oauth_token E s1 of
                       (Inl e, s2) \<Rightarrow> (Inl e, s2)
                     | (Inr t, s2) \<Rightarrow> request E url return_json True (s2\<lparr>auth_token := t\<rparr>))
                  else (Inl BBRequestAuthFail, s1)
              | TransportError \<Rightarrow> (Inl UnboundLocalError, s1)
              | Response code body \<Rightarrow>
                  if code = 200 then
                    (if return_json then
                       (case json_loads E body of
                          None \<Rightarrow> (Inl ValueError, s1)
                        | Some v \<Rightarrow> (Inr v, s1))
                     else (Inr (VStr body), s1))
                  else (Inl RequestNotOK, s1)))"
  by pat_completeness auto
termination
  by (relation "measure (\<lambda>(E, url, rj, retry, s). if retry then 0 else 1)") auto

section \<open>Files\<close>

text \<open>\<^verbatim>\<open>_bb_get_file\<close>: every exception of the request is logged and dropped; the
  result is the text, or the empty string.\<close>

definition bb_get_file :: "'w env \<Rightarrow> string \<Rightarrow> string \<Rightarrow> string \<Rightarrow> 'w reader \<Rightarrow> string \<times> 'w reader" where
  "bb_get_file E proj slug filename s =
     (let url = bb_proj E @ ''/'' @ proj @ ''/repos/'' @ slug @ ''/raw/'' @ filename
      in case request E url False False s of
           (Inl e, s') \<Rightarrow> ([], s')
         | (Inr v, s') \<Rightarrow> ((case v of VStr t \<Rightarrow> t | _ \<Rightarrow> []), s'))"

text \<open>\<^verbatim>\<open>_load_bb_file\<close>: a parser that raises, or a parsed value that is neither a
  mapping nor a sequence, is a \<open>BBFileLoadFailure\<close>.\<close>

definition load_bb_file :: "'w env \<Rightarrow> string \<Rightarrow> string \<Rightarrow> string \<Rightarrow> bool \<Rightarrow> 'w reader \<Rightarrow> (exn + val) \<times> 'w reader" where
  "load_bb_file E context slug filename json_content s =
     (case bb_get_file E context slug filename s of
        (file_content, s') \<Rightarrow>
          (case (if json_content then json_loads E file_content else yaml_load E file_content) of
             None \<Rightarrow> (Inl BBFileLoadFailure, s')
           | Some content_dict \<Rightarrow>
               if is_dict_or_list content_dict then (Inr content_dict, s')
               else (Inl BBFileLoadFailure, s')))"

section \<open>Paginated listing\<close>

text \<open>
  The \<^verbatim>\<open>while\<close> loop of \<^verbatim>\<open>_bb_rest_get\<close>, with the \<^verbatim>\<open>try\<close> around it: \<open>rsp\<close> is
  the page read last, \<open>rtn\<close> the items gathered so far.  The loop ends on a page whose
  \<^verbatim>\<open>isLastPage\<close> is true, or on the first exception, which is returned beside \<open>rtn\<close>.
  A server that never sends a last page keeps the loop running: the result is \<open>None\<close>.
\<close>

partial_function (option) rest_loop :: "'w env \<Rightarrow> string \<Rightarrow> val \<Rightarrow> val list \<Rightarrow> 'w reader \<Rightarrow> ((exn option \<times> val list) \<times> 'w reader) option" where
  "rest_loop E base_url rsp rtn s =
     (case getitem_str rsp ''isLastPage'' of
        Inl e \<Rightarrow> Some ((Some e, rtn), s)
      | Inr is_last \<Rightarrow>
          if truthy is_last then Some ((None, rtn), s)
          else
            (case getitem_str rsp ''nextPageStart'' of
               Inl e \<Rightarrow> Some ((Some e, rtn), s)
             | Inr start \<Rightarrow>
                 (case request E (base_url @ ''?start='' @ py_str E start) True False s of
                    (Inl e, s') \<Rightarrow> Some ((Some e, rtn), s')
                  | (Inr rsp', s') \<Rightarrow>
                      (case getitem_str rsp' ''values'' of
                         Inl e \<Rightarrow> Some ((Some e, rtn), s')
                       | Inr vs \<Rightarrow>
                           (case py_iter vs of
                              Inl e \<Rightarrow> Some ((Some e, rtn), s')
                            | Inr items \<Rightarrow> rest_loop E base_url rsp' (rtn @ items) s')))))"

definition first_rsp :: val where
  "first_rsp = VDict [(VStr ''isLastPage'', VBool False), (VStr ''nextPageStart'', VInt 0)]"

text \<open>\<^verbatim>\<open>_bb_rest_get\<close>: each handler only logs, and \<^verbatim>\<open>rtn or []\<close> is \<open>rtn\<close>, a list by
  then.\<close>

definition bb_rest_get :: "'w env \<Rightarrow> string \<Rightarrow> 'w reader \<Rightarrow> (val list \<times> 'w reader) option" where
  "bb_rest_get E command s =
     (case rest_loop E (bb_rest E @ ''/'' @ command) first_rsp [] s of
        None \<Rightarrow> None
      | Some ((caught, rtn), s') \<Rightarrow> Some (rtn, s'))"

section \<open>The skeleton\<close>

text \<open>The comprehension of \<^verbatim>\<open>_get_repo_names\<close>:
  \<^verbatim>\<open>[v['slug'] for v in repo_vals if v['name'].endswith('-org')]\<close>.\<close>

fun select_slugs :: "val list \<Rightarrow> exn + val list" where
  "select_slugs [] = Inr []"
| "select_slugs (v # vs) =
     (case getitem_str v ''name'' of
        Inl e \<Rightarrow> Inl e
      | Inr n \<Rightarrow>
          (case n of
             VStr name \<Rightarrow>
               if endswith name ''-org'' then
                 (case getitem_str v ''slug'' of
                    Inl e \<Rightarrow> Inl e
                  | Inr sl \<Rightarrow>
                      (case select_slugs vs of Inl e \<Rightarrow> Inl e | Inr r \<Rightarrow> Inr (sl # r)))
               else select_slugs vs
           | _ \<Rightarrow> Inl AttributeError))"

text \<open>\<^verbatim>\<open>','.join(repo_names)\<close> in the logging call raises on anything but strings.\<close>

fun str_items :: "val list \<Rightarrow> exn + string list" where
  "str_items [] = Inr []"
| "str_items (VStr s # vs) = (case str_items vs of Inl e \<Rightarrow> Inl e | Inr r \<Rightarrow> Inr (s # r))"
| "str_items (_ # vs) = Inl TypeError"

definition get_repo_names :: "'w env \<Rightarrow> string \<Rightarrow> 'w reader \<Rightarrow> ((exn + string list) \<times> 'w reader) option" where
  "get_repo_names E proj s =
     (case bb_rest_get E (proj @ ''/repos'') s of
        None \<Rightarrow> None
      | Some (repo_vals, s') \<Rightarrow>
          Some ((if repo_vals \<noteq> [] then
                   (case select_slugs repo_vals of Inl e \<Rightarrow> Inl e | Inr names \<Rightarrow> str_items names)
                 else Inr []), s'))"

definition term_org :: string where
  "term_org = ''-org''"

definition org_key :: "string \<Rightarrow> string" where
  "org_key r = take (length (lower r) - length term_org) (lower r)"

text \<open>The dictionary comprehension of \<^verbatim>\<open>_make_cache\<close>; every entry starts as an empty
  \<^verbatim>\<open>defaultdict(dict)\<close>.\<close>

definition skeleton :: "string list \<Rightarrow> orgs" where
  "skeleton names =
     foldl (\<lambda>d r. AList.update (org_key r) [] d) [] (filter (\<lambda>r. endswith r term_org) names)"

fun make_cache_loop :: "'w env \<Rightarrow> string list \<Rightarrow> cache \<Rightarrow> 'w reader \<Rightarrow> ((exn + cache) \<times> 'w reader) option" where
  "make_cache_loop E [] cache_obj s = Some (Inr cache_obj, s)"
| "make_cache_loop E (ctxt # cs) cache_obj s =
     (case get_repo_names E ctxt s of
        None \<Rightarrow> None
      | Some (Inl e, s') \<Rightarrow> Some (Inl e, s')
      | Some (Inr names, s') \<Rightarrow>
          make_cache_loop E cs (AList.update ctxt (skeleton names) cache_obj) s')"

definition make_cache :: "'w env \<Rightarrow> 'w reader \<Rightarrow> ((exn + cache) \<times> 'w reader) option" where
  "make_cache E s = make_cache_loop E (contexts s) [] s"

section \<open>Refresh\<close>

fun setitem_str :: "val \<Rightarrow> string \<Rightarrow> val \<Rightarrow> exn + val" where
  "setitem_str (VDict kvs) k v = Inr (VDict (AList.update (VStr k) v kvs))"
| "setitem_str _ k v = Inl TypeError"

text \<open>\<^verbatim>\<open>entry[space]\<close> on the org's \<^verbatim>\<open>defaultdict(dict)\<close>: a missing key gives a fresh
  empty mapping, an unhashable key raises.\<close>

definition entry_get :: "entry \<Rightarrow> val \<Rightarrow> exn + val" where
  "entry_get entry k =
     (if \<not> hashable k then Inl TypeError
      else case map_of entry k of None \<Rightarrow> Inr (VDict []) | Some d \<Rightarrow> Inr d)"

text \<open>The two assignments that end the body of the space loop.\<close>

definition store_pair :: "val \<Rightarrow> val \<Rightarrow> val \<Rightarrow> entry \<Rightarrow> exn + entry" where
  "store_pair space sec_dict spc_dict entry =
     (case entry_get entry space of
        Inl e \<Rightarrow> Inl e
      | Inr d \<Rightarrow>
          (case setitem_str d ''security'' sec_dict of
             Inl e \<Rightarrow> Inl e
           | Inr d1 \<Rightarrow>
               (let entry1 = AList.update space d1 entry
                in case entry_get entry1 space of
                     Inl e \<Rightarrow> Inl e
                   | Inr d' \<Rightarrow>
                       (case setitem_str d' ''space_config'' spc_dict of
                          Inl e \<Rightarrow> Inl e
                        | Inr d2 \<Rightarrow> Inr (AList.update space d2 entry1)))))"

text \<open>The body of \<^verbatim>\<open>for space in ...\<close>.  The second file is not asked for when the
  first fails to load.\<close>

definition refresh_space :: "'w env \<Rightarrow> string \<Rightarrow> string \<Rightarrow> val \<Rightarrow> entry \<times> 'w reader \<Rightarrow> (exn + entry) \<times> 'w reader" where
  "refresh_space E context slug space es =
     (case es of
        (entry, s) \<Rightarrow>
          (let sec_name = py_str E space @ ''/security-group.json'';
               spc_name = py_str E space @ ''/spaceConfig.yml''
           in case load_bb_file E context slug sec_name True s of
                (Inl e, s1) \<Rightarrow>
                  if e = BBFileLoadFailure then (store_pair space VNone VNone entry, s1)
                  else (Inl e, s1)
              | (Inr sec_dict, s1) \<Rightarrow>
                  (case load_bb_file E context slug spc_name False s1 of
                     (Inl e, s2) \<Rightarrow>
                       if e = BBFileLoadFailure then (store_pair space VNone VNone entry, s2)
                       else (Inl e, s2)
                   | (Inr spc_dict, s2) \<Rightarrow> (store_pair space sec_dict spc_dict entry, s2))))"

fun refresh_spaces :: "'w env \<Rightarrow> string \<Rightarrow> string \<Rightarrow> val list \<Rightarrow> entry \<times> 'w reader \<Rightarrow> (exn + entry) \<times> 'w reader" where
  "refresh_spaces E context slug [] es = (Inr (fst es), snd es)"
| "refresh_spaces E context slug (space # rest) es =
     (case refresh_space E context slug space es of
        (Inl e, s') \<Rightarrow> (Inl e, s')
      | (Inr entry', s') \<Rightarrow> refresh_spaces E context slug rest (entry', s'))"

text \<open>\<^verbatim>\<open>odict['org'].lower()\<close>.\<close>

definition declared_org :: "val \<Rightarrow> exn + string" where
  "declared_org odict =
     (case getitem_str odict ''org'' of
        Inl e \<Rightarrow> Inl e
      | Inr v \<Rightarrow> (case v of VStr name \<Rightarrow> Inr (lower name) | _ \<Rightarrow> Inl AttributeError))"

text \<open>
  Lines 335 to 354 of \<^verbatim>\<open>refresh\<close>.  \<open>sdict\<close> is \<open>None\<close> for the fresh
  \<^verbatim>\<open>defaultdict(dict)\<close> that stands in for a spaces file that did not load; reading its
  \<^verbatim>\<open>'spaces'\<close> creates an empty mapping there.  \<^verbatim>\<open>new_cache[context]\<close> is a plain
  dictionary, so an unknown \<open>repo\<close> is a \<open>KeyError\<close>.
\<close>

definition populate :: "'w env \<Rightarrow> string \<Rightarrow> string \<Rightarrow> string \<Rightarrow> val \<Rightarrow> val option \<Rightarrow> cache \<times> 'w reader \<Rightarrow> (exn + cache) \<times> 'w reader" where
  "populate E context slug repo odict sdict cs =
     (case cs of
        (new_cache, s) \<Rightarrow>
          (case map_of new_cache context of
             None \<Rightarrow> (Inl KeyError, s)
           | Some repolist \<Rightarrow>
               (case map_of repolist repo of
                  None \<Rightarrow> (Inl KeyError, s)
                | Some entry \<Rightarrow>
                    (let entry1 = AList.update (VStr ''org'') odict entry;
                         entry2 = AList.update (VStr ''space'')
                                    (case sdict of
                                       None \<Rightarrow> VDict [(VStr ''spaces'', VDict [])]
                                     | Some sd \<Rightarrow> sd) entry1
                     in case (case sdict of
                                None \<Rightarrow> Inr []
                              | Some sd \<Rightarrow>
                                  (case getitem_str sd ''spaces'' of
                                     Inl e \<Rightarrow> Inl e
                                   | Inr sp \<Rightarrow> py_iter sp)) of
                          Inl e \<Rightarrow> (Inl e, s)
                        | Inr spaces \<Rightarrow>
                            (case refresh_spaces E context slug spaces (entry2, s) of
                               (Inl e, s') \<Rightarrow> (Inl e, s')
                             | (Inr entry3, s') \<Rightarrow>
                                 (Inr (AList.update context
                                         (AList.update repo entry3 repolist) new_cache), s'))))))"

text \<open>The body of \<^verbatim>\<open>for slug in sluglist\<close>.  \<open>Inr\<close> is the cache after the body, also
  when the body left through \<^verbatim>\<open>continue\<close>.\<close>

definition refresh_slug :: "'w env \<Rightarrow> string \<Rightarrow> string \<Rightarrow> cache \<times> 'w reader \<Rightarrow> (exn + cache) \<times> 'w reader" where
  "refresh_slug E context slug cs =
     (case cs of
        (new_cache, s) \<Rightarrow>
          (case load_bb_file E context slug ''orgConfig.yml'' False s of
             (Inl e, s1) \<Rightarrow>
               if e = BBFileLoadFailure \<or> e = KeyError then (Inr new_cache, s1) else (Inl e, s1)
           | (Inr odict, s1) \<Rightarrow>
               (case declared_org odict of
                  Inl e \<Rightarrow>
                    if e = BBFileLoadFailure \<or> e = KeyError then (Inr new_cache, s1)
                    else (Inl e, s1)
                | Inr repo \<Rightarrow>
                    (case load_bb_file E context slug ''spaces.yml'' False s1 of
                       (Inl e, s2) \<Rightarrow>
                         if e = BBFileLoadFailure
                         then populate E context slug repo odict None (new_cache, s2)
                         else (Inl e, s2)
                     | (Inr sdict, s2) \<Rightarrow>
                         populate E context slug repo odict (Some sdict) (new_cache, s2)))))"

fun refresh_slugs :: "'w env \<Rightarrow> string \<Rightarrow> string list \<Rightarrow> cache \<times> 'w reader \<Rightarrow> (exn + cache) \<times> 'w reader" where
  "refresh_slugs E context [] cs = (Inr (fst cs), snd cs)"
| "refresh_slugs E context (slug # rest) cs =
     (case refresh_slug E context slug cs of
        (Inl e, s') \<Rightarrow> (Inl e, s')
      | (Inr new_cache', s') \<Rightarrow> refresh_slugs E context rest (new_cache', s'))"

definition sluglist :: "cache \<Rightarrow> string \<Rightarrow> string list" where
  "sluglist new_cache context =
     (case map_of new_cache context of
        None \<Rightarrow> []
      | Some repolist \<Rightarrow> map (\<lambda>r. r @ ''-org'') (map fst repolist))"

text \<open>\<^verbatim>\<open>for context, repolist in new_cache.items()\<close>.\<close>

fun refresh_contexts :: "'w env \<Rightarrow> string list \<Rightarrow> cache \<times> 'w reader \<Rightarrow> (exn + cache) \<times> 'w reader" where
  "refresh_contexts E [] cs = (Inr (fst cs), snd cs)"
| "refresh_contexts E (context # rest) cs =
     (case refresh_slugs E context (sluglist (fst cs) context) cs of
        (Inl e, s') \<Rightarrow> (Inl e, s')
      | (Inr new_cache', s') \<Rightarrow> refresh_contexts E rest (new_cache', s'))"

text \<open>
  \<^verbatim>\<open>refresh\<close>.  The clock is read at the start, twice around the copy and once for the
  timestamp.  \<open>Inl\<close> is an exception leaving \<^verbatim>\<open>refresh\<close>; \<open>None\<close> a listing that never
  ends.
\<close>

definition refresh :: "'w env \<Rightarrow> 'w reader \<Rightarrow> ((exn + unit) \<times> 'w reader) option" where
  "refresh E s =
     (case clock E (world s) of
        (start_time, w0) \<Rightarrow>
          (case make_cache E (s\<lparr>world := w0\<rparr>) of
             None \<Rightarrow> None
           | Some (Inl e, s1) \<Rightarrow> Some (Inl e, s1)
           | Some (Inr new_cache, s1) \<Rightarrow>
               (case refresh_contexts E (map fst new_cache) (new_cache, s1) of
                  (Inl e, s2) \<Rightarrow> Some (Inl e, s2)
                | (Inr built, s2) \<Rightarrow>
                    (case clock E (world s2) of
                       (copy_start, w1) \<Rightarrow>
                         (case clock E w1 of
                            (copy_end, w2) \<Rightarrow>
                              (case clock E w2 of
                                 (stamp, w3) \<Rightarrow>
                                   Some (Inr (), s2\<lparr>world := w3, cache := built,
                                                   cache_timestamp := Some stamp\<rparr>)))))))"

text \<open>The constructor: a first token, the contexts, no timestamp, and a skeleton as the
  first cache.\<close>

definition init :: "'w env \<Rightarrow> string list \<Rightarrow> 'w \<Rightarrow> (exn + 'w reader) option" where
  "init E context_list w =
     (let s0 = \<lparr>world = w, auth_token = [], contexts = context_list, cache = [],
                cache_timestamp = None, trace = []\<rparr>
      in case get_oauth_token E s0 of
           (Inl e, s1) \<Rightarrow> Some (Inl e)
         | (Inr t, s1) \<Rightarrow>
             (case make_cache E (s1\<lparr>auth_token := t\<rparr>) of
                None \<Rightarrow> None
              | Some (Inl e, s2) \<Rightarrow> Some (Inl e)
              | Some (Inr c, s2) \<Rightarrow> Some (Inr (s2\<lparr>cache := c\<rparr>))))"

section \<open>Observing the calls of one operation\<close>

definition is_get :: "event \<Rightarrow> bool" where
  "is_get ev = (case ev of EvGet u t \<Rightarrow> True | EvToken \<Rightarrow> False)"

definition n_gets :: "event list \<Rightarrow> nat" where
  "n_gets tr = length (filter is_get tr)"

definition n_tokens :: "event list \<Rightarrow> nat" where
  "n_tokens tr = length (filter (\<lambda>ev. \<not> is_get ev) tr)"

text \<open>The calls made between two states of the reader.\<close>

definition calls_of :: "'w reader \<Rightarrow> 'w reader \<Rightarrow> event list" where
  "calls_of s s' = drop (length (trace s)) (trace s')"

section \<open>Concrete worlds\<close>

text \<open>A server whose every GET ends in an SSL error, with a token endpoint that answers
  \<open>tok\<close>.\<close>

definition ssl_env :: "string option \<Rightarrow> unit env" where
  "ssl_env tok =
     \<lparr>http_get = (\<lambda>u t w. (SSLError, w)), fetch_token = (\<lambda>w. (tok, w)),
      clock = (\<lambda>w. (0, w)), json_loads = (\<lambda>b. None), yaml_load = (\<lambda>b. None),
      py_repr = (\<lambda>v. []), bb_rest = ''rest'', bb_proj = ''proj''\<rparr>"

text \<open>A reader that has not refreshed yet.\<close>

definition idle :: "string list \<Rightarrow> unit reader" where
  "idle cs = \<lparr>world = (), auth_token = ''t0'', contexts = cs, cache = [],
               cache_timestamp = None, trace = []\<rparr>"

text \<open>A server that answers from a fixed table of urls: the body stored for the url, or
  status 404.  A second table stands for both parsers.\<close>

definition static_env :: "(string \<times> string) list \<Rightarrow> (string \<times> val) list \<Rightarrow> unit env" where
  "static_env pages docs =
     \<lparr>http_get = (\<lambda>u t w. ((case map_of pages u of
                                 None \<Rightarrow> Response 404 []
                               | Some body \<Rightarrow> Response 200 body), w)),
      fetch_token = (\<lambda>w. (Some ''t1'', w)),
      clock = (\<lambda>w. (7, w)), json_loads = map_of docs, yaml_load = map_of docs,
      py_repr = (\<lambda>v. []), bb_rest = ''rest'', bb_proj = ''proj''\<rparr>"

definition repo_val :: "string \<Rightarrow> string \<Rightarrow> val" where
  "repo_val name slug = VDict [(VStr ''name'', VStr name), (VStr ''slug'', VStr slug)]"

definition page_val :: "bool \<Rightarrow> int \<Rightarrow> val list \<Rightarrow> val" where
  "page_val is_last start vs =
     VDict [(VStr ''isLastPage'', VBool is_last), (VStr ''nextPageStart'', VInt start),
            (VStr ''values'', VList vs)]"

text \<open>
  One context with four repositories.  \<^verbatim>\<open>a-org\<close> has no files, \<^verbatim>\<open>tools\<close> is not an
  org, the \<^verbatim>\<open>orgConfig.yml\<close> of \<^verbatim>\<open>c-org\<close> declares no org, and \<^verbatim>\<open>B-org\<close> is
  complete but for the \<^verbatim>\<open>spaceConfig.yml\<close> of its second space.
\<close>

definition demo_pages :: "(string \<times> string) list" where
  "demo_pages =
     [(''rest/ctx/repos?start=0'', ''listing''),
      (''proj/ctx/repos/c-org/raw/orgConfig.yml'', ''org-c''),
      (''proj/ctx/repos/b-org/raw/orgConfig.yml'', ''org-b''),
      (''proj/ctx/repos/b-org/raw/spaces.yml'', ''spaces-b''),
      (''proj/ctx/repos/b-org/raw/s1/security-group.json'', ''sec-s1''),
      (''proj/ctx/repos/b-org/raw/s1/spaceConfig.yml'', ''cfg-s1''),
      (''proj/ctx/repos/b-org/raw/s2/security-group.json'', ''sec-s2'')]"

definition demo_docs :: "(string \<times> val) list" where
  "demo_docs =
     [(''listing'', page_val True 0 [repo_val ''a-org'' ''a-org'', repo_val ''tools'' ''tools'',
                                     repo_val ''c-org'' ''c-org'', repo_val ''B-org'' ''B-org'']),
      (''org-c'', VDict [(VStr ''owner'', VStr ''nobody'')]),
      (''org-b'', VDict [(VStr ''org'', VStr ''B'')]),
      (''spaces-b'', VDict [(VStr ''spaces'', VList [VStr ''s1'', VStr ''s2''])]),
      (''sec-s1'', VList [VStr ''rule'']),
      (''cfg-s1'', VDict [(VStr ''quota'', VInt 1)]),
      (''sec-s2'', VList [VStr ''other''])]"

definition demo :: "unit env" where
  "demo = static_env demo_pages demo_docs"

definition demo_skeleton :: cache where
  "demo_skeleton = [(''ctx'', [(''a'', []), (''c'', []), (''b'', [])])]"

definition demo_built :: cache where
  "demo_built =
     [(''ctx'',
       [(''a'', []),
        (''c'', []),
        (''b'', [(VStr ''org'', VDict [(VStr ''org'', VStr ''B'')]),
                 (VStr ''space'', VDict [(VStr ''spaces'', VList [VStr ''s1'', VStr ''s2''])]),
                 (VStr ''s1'', VDict [(VStr ''security'', VList [VStr ''rule'']),
                                      (VStr ''space_config'', VDict [(VStr ''quota'', VInt 1)])]),
                 (VStr ''s2'', VDict [(VStr ''security'', VNone),
                                      (VStr ''space_config'', VNone)])])])]"

text \<open>What readers of the reader can see: the published cache and its timestamp.\<close>

definition published :: "'w reader \<Rightarrow> cache \<times> int option" where
  "published s = (cache s, cache_timestamp s)"

text \<open>One context with the single repository \<^verbatim>\<open>a-org\<close>, whose two top-level files
  parse to the given documents.\<close>

definition one_org :: "val \<Rightarrow> val \<Rightarrow> unit env" where
  "one_org org_doc spaces_doc =
     static_env
       [(''rest/ctx/repos?start=0'', ''listing''),
        (''proj/ctx/repos/a-org/raw/orgConfig.yml'', ''org-a''),
        (''proj/ctx/repos/a-org/raw/spaces.yml'', ''spaces-a'')]
       [(''listing'', page_val True 0 [repo_val ''a-org'' ''a-org'']),
        (''org-a'', org_doc),
        (''spaces-a'', spaces_doc)]"

text \<open>The org file of \<^verbatim>\<open>a-org\<close> declares an org that no repository is named after.\<close>

definition orphan :: "unit env" where
  "orphan = one_org (VDict [(VStr ''org'', VStr ''zed'')]) (VDict [(VStr ''spaces'', VList [])])"

text \<open>A reader that has published a cache before.\<close>

definition served :: "unit reader" where
  "served = (idle [''ctx''])\<lparr>cache := demo_built, cache_timestamp := Some 3\<rparr>"

section \<open>Describing a paged listing\<close>

text \<open>What a page says: whether it is the last one, and the items it carries.\<close>

definition is_last :: "val \<Rightarrow> bool option" where
  "is_last p = (case getitem_str p ''isLastPage'' of Inl e \<Rightarrow> None | Inr l \<Rightarrow> Some (truthy l))"

definition page_items :: "val \<Rightarrow> val list option" where
  "page_items p =
     (case getitem_str p ''values'' of
        Inl e \<Rightarrow> None
      | Inr vs \<Rightarrow> (case py_iter vs of Inl e \<Rightarrow> None | Inr items \<Rightarrow> Some items))"

definition all_items :: "val list \<Rightarrow> val list" where
  "all_items ps = concat (map (\<lambda>p. case page_items p of None \<Rightarrow> [] | Some items \<Rightarrow> items) ps)"

text \<open>The url asked for after the page \<open>prev\<close>.\<close>

definition page_url :: "'w env \<Rightarrow> string \<Rightarrow> val \<Rightarrow> string option" where
  "page_url E base prev =
     (case getitem_str prev ''nextPageStart'' of
        Inl e \<Rightarrow> None
      | Inr start \<Rightarrow> Some (base @ ''?start='' @ py_str E start))"

text \<open>
  \<open>paged E base prev s pages\<close>: after \<open>prev\<close>, in state \<open>s\<close>, the server answers the
  requests that follow each other's \<^verbatim>\<open>nextPageStart\<close> with \<open>pages\<close>, each paired with the
  state its request leaves; every page but the last says it is not the last, the last
  says it is.
\<close>

fun paged :: "'w env \<Rightarrow> string \<Rightarrow> val \<Rightarrow> 'w reader \<Rightarrow> (val \<times> 'w reader) list \<Rightarrow> bool" where
  "paged E base prev s [] = (is_last prev = Some True)"
| "paged E base prev s ((p, s') # ps) =
     (is_last prev = Some False \<and>
      (case page_url E base prev of
         None \<Rightarrow> False
       | Some url \<Rightarrow> request E url True False s = (Inr p, s')) \<and>
      page_items p \<noteq> None \<and>
      paged E base p s' ps)"

text \<open>\<open>broken\<close>: the same, but no page is the last, and the request after the last of
  \<open>pages\<close> raises.\<close>

fun broken :: "'w env \<Rightarrow> string \<Rightarrow> val \<Rightarrow> 'w reader \<Rightarrow> (val \<times> 'w reader) list \<Rightarrow> bool" where
  "broken E base prev s [] =
     (is_last prev = Some False \<and>
      (case page_url E base prev of
         None \<Rightarrow> False
       | Some url \<Rightarrow> isl (fst (request E url True False s))))"
| "broken E base prev s ((p, s') # ps) =
     (is_last prev = Some False \<and>
      (case page_url E base prev of
         None \<Rightarrow> False
       | Some url \<Rightarrow> request E url True False s = (Inr p, s')) \<and>
      page_items p \<noteq> None \<and>
      broken E base p s' ps)"

text \<open>A listing of two pages, the second of which can be missing.\<close>

definition two_pages :: "bool \<Rightarrow> unit env" where
  "two_pages second =
     static_env
       ((''rest/x?start=0'', ''p1'') # (if second then [(''rest/x?start=2'', ''p2'')] else []))
       [(''p1'', page_val False 2 [VInt 1, VInt 2]), (''p2'', page_val True 0 [VInt 3])]"

definition page_one :: val where
  "page_one = page_val False 2 [VInt 1, VInt 2]"

definition page_two :: val where
  "page_two = page_val True 0 [VInt 3]"

definition after_get :: "string \<Rightarrow> unit reader \<Rightarrow> unit reader" where
  "after_get url s = s\<lparr>trace := trace s @ [EvGet url (auth_token s)]\<rparr>"

section \<open>Describing a repository listing\<close>

text \<open>A field of a listed repository, when it is there and is a string.\<close>

definition str_field :: "val \<Rightarrow> string \<Rightarrow> string option" where
  "str_field v k = (case getitem_str v k of Inr (VStr x) \<Rightarrow> Some x | _ \<Rightarrow> None)"

text \<open>In the words of the specification: the slugs of the listed repositories whose
  display name ends with the org marker, in listing order.\<close>

definition org_slugs :: "val list \<Rightarrow> string list" where
  "org_slugs vs =
     List.map_filter
       (\<lambda>v. case (str_field v ''name'', str_field v ''slug'') of
              (Some name, Some slug) \<Rightarrow> if endswith name ''-org'' then Some slug else None
            | _ \<Rightarrow> None) vs"

text \<open>A listing whose only repository has the display name \<^verbatim>\<open>a-org\<close> and the slug
  \<^verbatim>\<open>a\<close>.\<close>

definition misnamed :: "unit env" where
  "misnamed =
     static_env [(''rest/ctx/repos?start=0'', ''listing'')]
       [(''listing'', page_val True 0 [repo_val ''a-org'' ''a''])]"

text \<open>The repositories that the demonstration world lists.\<close>

definition demo_listing :: "val list" where
  "demo_listing = [repo_val ''a-org'' ''a-org'', repo_val ''tools'' ''tools'',
                   repo_val ''c-org'' ''c-org'', repo_val ''B-org'' ''B-org'']"

section \<open>Describing a cache whose spaces are paired\<close>

text \<open>A space's mapping holds both fields, and either both are \<^verbatim>\<open>None\<close> or neither is.\<close>

definition paired :: "val \<Rightarrow> bool" where
  "paired d =
     (case (getitem_str d ''security'', getitem_str d ''space_config'') of
        (Inr sec, Inr spc) \<Rightarrow> (sec = VNone) = (spc = VNone)
      | _ \<Rightarrow> False)"

text \<open>The keys of an org's entry that name a space.\<close>

definition space_key :: "val \<Rightarrow> bool" where
  "space_key k = (k \<noteq> VStr ''org'' \<and> k \<noteq> VStr ''space'')"

definition entry_paired :: "entry \<Rightarrow> bool" where
  "entry_paired entry = list_all (\<lambda>(k, d). space_key k \<longrightarrow> paired d) entry"

definition cache_paired :: "cache \<Rightarrow> bool" where
  "cache_paired c =
     list_all (\<lambda>(ctxt, repolist). list_all (\<lambda>(repo, entry). entry_paired entry) repolist) c"

text \<open>Both top-level files of \<^verbatim>\<open>a-org\<close> load, but \<^verbatim>\<open>spaces.yml\<close> is a mapping without
  a \<^verbatim>\<open>spaces\<close> field.\<close>

definition no_spaces :: "unit env" where
  "no_spaces = one_org (VDict [(VStr ''org'', VStr ''a'')]) (VDict [(VStr ''owner'', VStr ''x'')])"


section \<open>Single requests retry once\<close>

declare request.simps [simp del]

lemma request_retry:
  "request E url rj True s =
     (case http_get E url (auth_token s) (world s) of
        (out, w') \<Rightarrow>
          (let s1 = s\<lparr>world := w', trace := trace s @ [EvGet url (auth_token s)]\<rparr>
           in case out of
                SSLError \<Rightarrow> (Inl BBRequestAuthFail, s1)
              | TransportError \<Rightarrow> (Inl UnboundLocalError, s1)
              | Response code body \<Rightarrow>
                  if code = 200 then
                    (if rj then
                       (case json_loads E body of
                          None \<Rightarrow> (Inl ValueError, s1)
                        | Some v \<Rightarrow> (Inr v, s1))
                     else (Inr (VStr body), s1))
                  else (Inl RequestNotOK, s1)))"
  by (subst request.simps) (simp add: Let_def split: prod.splits http_outcome.splits)

lemma counts_simps:
  "n_gets [] = 0" "n_gets (EvGet u t # tr) = Suc (n_gets tr)" "n_gets (EvToken # tr) = n_gets tr"
  "n_tokens [] = 0" "n_tokens (EvGet u t # tr) = n_tokens tr" "n_tokens (EvToken # tr) = Suc (n_tokens tr)"
  by (simp_all add: n_gets_def n_tokens_def is_get_def)

text \<open>
  C6, as amended.  One call of \<^verbatim>\<open>_request\<close> makes at most two GETs and asks for at most
  one token.  When the first GET ends in an SSL error, the token is asked for exactly
  once; if the token endpoint fails, its exception leaves the call and no retry is made;
  if it answers, exactly one retry is made with the new token, and an SSL error of the
  retry is raised as \<open>BBRequestAuthFail\<close>.
\<close>

theorem request_single_retry:
  assumes "request E url rj False s = (r, s')"
  shows "n_tokens (calls_of s s') \<le> 1 \<and> n_gets (calls_of s s') \<le> 2 \<and>
     (fst (http_get E url (auth_token s) (world s)) = SSLError \<longrightarrow>
        n_tokens (calls_of s s') = 1 \<and>
        (case fst (fetch_token E (snd (http_get E url (auth_token s) (world s)))) of
           None \<Rightarrow> n_gets (calls_of s s') = 1 \<and> r = Inl TokenError
         | Some t \<Rightarrow>
             n_gets (calls_of s s') = 2 \<and>
             (fst (http_get E url t
                    (snd (fetch_token E (snd (http_get E url (auth_token s) (world s)))))) = SSLError
              \<longrightarrow> r = Inl BBRequestAuthFail)))"
  using assms
  apply (subst (asm) request.simps)
  apply (auto simp: Let_def get_oauth_token_def request_retry calls_of_def counts_simps
      split: prod.splits http_outcome.splits if_splits option.splits sum.splits)
  done

theorem request_single_retry_witness:
  "fst (request (ssl_env (Some ''t1'')) ''u'' False False (idle [])) = Inl BBRequestAuthFail \<and>
   n_tokens (trace (snd (request (ssl_env (Some ''t1'')) ''u'' False False (idle [])))) = 1 \<and>
   n_gets (trace (snd (request (ssl_env (Some ''t1'')) ''u'' False False (idle [])))) = 2"
  using request_single_retry [of "ssl_env (Some ''t1'')" "''u''" False "idle []"
      "fst (request (ssl_env (Some ''t1'')) ''u'' False False (idle []))"
      "snd (request (ssl_env (Some ''t1'')) ''u'' False False (idle []))"]
  by (simp add: ssl_env_def idle_def calls_of_def)

text \<open>C6 as stated fails where the token endpoint is down: the first GET ends in an SSL
  error, the token exchange raises, and the call ends after one GET, without a retry.\<close>

theorem request_token_failure_counterexample:
  "fst (http_get (ssl_env None) ''u'' (auth_token (idle [])) (world (idle []))) = SSLError \<and>
   fst (request (ssl_env None) ''u'' False False (idle [])) = Inl TokenError \<and>
   n_gets (trace (snd (request (ssl_env None) ''u'' False False (idle [])))) = 1"
  by (simp add: request.simps [of _ _ _ False] ssl_env_def idle_def get_oauth_token_def counts_simps)

section \<open>Evaluating the demonstration world\<close>

lemma lower_B: "lower ''B'' = ''b''"
  by code_simp

lemmas demo_defs = static_env_def demo_def demo_pages_def demo_docs_def demo_skeleton_def
  demo_built_def repo_val_def page_val_def

lemmas slug_defs = refresh_slug_def load_bb_file_def bb_get_file_def request.simps [of _ _ _ False]
  Let_def is_dict_or_list_def declared_org_def populate_def refresh_space_def store_pair_def
  entry_get_def lower_B

lemma demo_b_org:
  "fst (refresh_slug demo ''ctx'' ''b-org'' (demo_skeleton, s)) = Inr demo_built"
  by (simp add: demo_defs slug_defs)


lemma demo_c_org:
  "fst (load_bb_file demo ''ctx'' ''c-org'' ''orgConfig.yml'' False s) =
     Inr (VDict [(VStr ''owner'', VStr ''nobody'')])"
  by (simp add: demo_defs slug_defs)

lemma refresh_slugs_single:
  "fst (refresh_slugs E context [slug] cs) = fst (refresh_slug E context slug cs)"
  by (simp split: prod.splits sum.splits)

section \<open>Orgs that are skipped\<close>

text \<open>
  C10.  When \<^verbatim>\<open>orgConfig.yml\<close> loads as a mapping without an \<^verbatim>\<open>org\<close> key, the
  \<open>KeyError\<close> is caught: the body of the slug loop leaves the cache under construction
  as it was, and the loop goes on with the remaining orgs.
\<close>

theorem refresh_slug_missing_org_key:
  assumes "load_bb_file E context slug ''orgConfig.yml'' False s = (Inr (VDict kvs), s1)"
    and "map_of kvs (VStr ''org'') = None"
  shows "refresh_slug E context slug (new_cache, s) = (Inr new_cache, s1) \<and>
         refresh_slugs E context (slug # rest) (new_cache, s) =
           refresh_slugs E context rest (new_cache, s1)"
  using assms by (simp add: refresh_slug_def declared_org_def)

theorem refresh_slug_missing_org_key_witness:
  "fst (load_bb_file demo ''ctx'' ''c-org'' ''orgConfig.yml'' False (idle [''ctx''])) =
     Inr (VDict [(VStr ''owner'', VStr ''nobody'')]) \<and>
   fst (refresh_slugs demo ''ctx'' [''c-org'', ''b-org''] (demo_skeleton, idle [''ctx''])) =
     Inr demo_built"
  using refresh_slug_missing_org_key [of demo "''ctx''" "''c-org''" "idle [''ctx'']"
      "[(VStr ''owner'', VStr ''nobody'')]"
      "snd (load_bb_file demo ''ctx'' ''c-org'' ''orgConfig.yml'' False (idle [''ctx'']))"
      demo_skeleton "[''b-org'']"]
    demo_c_org [of "idle [''ctx'']"]
  by (simp add: prod_eq_iff refresh_slugs_single demo_b_org del: refresh_slugs.simps)

section \<open>Nothing below \<^verbatim>\<open>refresh\<close> touches what is published\<close>

lemma get_oauth_token_published:
  "get_oauth_token E s = (r, s') \<Longrightarrow> published s' = published s"
  by (auto simp: get_oauth_token_def published_def Let_def split: prod.splits option.splits)

lemma request_retry_published:
  "request E url rj True s = (r, s') \<Longrightarrow> published s' = published s"
  by (auto simp: request_retry published_def Let_def
      split: prod.splits http_outcome.splits if_splits option.splits)

lemma request_published:
  "request E url rj retry s = (r, s') \<Longrightarrow> published s' = published s"
proof (cases retry)
  case True
  assume "request E url rj retry s = (r, s')"
  with True show "published s' = published s"
    using request_retry_published [of E url rj s r s'] by simp
next
  case False
  assume "request E url rj retry s = (r, s')"
  with False have "request E url rj False s = (r, s')" by simp
  then show "published s' = published s"
    apply (subst (asm) request.simps)
    apply (auto simp: Let_def split: prod.splits http_outcome.splits if_splits option.splits sum.splits
        dest!: request_retry_published get_oauth_token_published)
    apply (auto simp: published_def)
    done
qed

lemma load_bb_file_published:
  "load_bb_file E context slug filename j s = (r, s') \<Longrightarrow> published s' = published s"
  by (auto simp: load_bb_file_def bb_get_file_def Let_def
      split: prod.splits sum.splits option.splits if_splits dest: request_published)

lemma rest_loop_published:
  "rest_loop E base rsp rtn s = Some y \<Longrightarrow> published (snd y) = published s"
proof (induction rule: rest_loop.raw_induct [rotated 1, consumes 1, case_names step])
  case (step loop E base rsp rtn s y)
  note IH = step(1) and body = step(2)
  show ?case
  proof (cases "getitem_str rsp ''isLastPage''")
    case (Inl e)
    with body show ?thesis by auto
  next
    case is_last: (Inr l)
    show ?thesis
    proof (cases "truthy l")
      case True
      with body is_last show ?thesis by auto
    next
      case more: False
      show ?thesis
      proof (cases "getitem_str rsp ''nextPageStart''")
        case (Inl e)
        with body is_last more show ?thesis by auto
      next
        case start: (Inr st)
        obtain r s1 where req: "request E (base @ ''?start='' @ py_str E st) True False s = (r, s1)"
          by (cases "request E (base @ ''?start='' @ py_str E st) True False s") auto
        have s1: "published s1 = published s"
          using req by (rule request_published)
        show ?thesis
        proof (cases r)
          case (Inl e)
          with body is_last more start req s1 show ?thesis by auto
        next
          case page: (Inr rsp')
          show ?thesis
          proof (cases "getitem_str rsp' ''values''")
            case (Inl e)
            with body is_last more start req s1 page show ?thesis by auto
          next
            case vals: (Inr vs)
            show ?thesis
            proof (cases "py_iter vs")
              case (Inl e)
              with body is_last more start req s1 page vals show ?thesis by auto
            next
              case (Inr items)
              with body is_last more start req page vals
              have "loop E base rsp' (rtn @ items) s1 = Some y" by auto
              then have "published (snd y) = published s1" by (rule IH)
              with s1 show ?thesis by simp
            qed
          qed
        qed
      qed
    qed
  qed
qed

lemma bb_rest_get_published:
  "bb_rest_get E command s = Some (r, s') \<Longrightarrow> published s' = published s"
  by (auto simp: bb_rest_get_def split: option.splits prod.splits dest: rest_loop_published)

lemma get_repo_names_published:
  "get_repo_names E proj s = Some (r, s') \<Longrightarrow> published s' = published s"
  by (auto simp: get_repo_names_def split: option.splits prod.splits dest: bb_rest_get_published)

lemma make_cache_loop_published:
  "make_cache_loop E cs c s = Some (r, s') \<Longrightarrow> published s' = published s"
proof (induction cs arbitrary: c s)
  case Nil
  then show ?case by simp
next
  case (Cons ctxt cs)
  then show ?case
    by (fastforce split: option.splits prod.splits sum.splits dest: get_repo_names_published)
qed

lemma refresh_space_published:
  "refresh_space E context slug space (entry, s) = (r, s') \<Longrightarrow> published s' = published s"
  by (auto simp: refresh_space_def Let_def split: prod.splits sum.splits if_splits
      dest!: load_bb_file_published)

lemma refresh_spaces_published:
  "refresh_spaces E context slug spaces (entry, s) = (r, s') \<Longrightarrow> published s' = published s"
proof (induction spaces arbitrary: entry s)
  case Nil
  then show ?case by simp
next
  case (Cons space spaces)
  then show ?case
    by (fastforce split: prod.splits sum.splits dest: refresh_space_published)
qed

lemma populate_published:
  "populate E context slug repo odict sdict (c, s) = (r, s') \<Longrightarrow> published s' = published s"
  by (auto simp: populate_def Let_def split: option.splits prod.splits sum.splits
      dest: refresh_spaces_published)

lemma refresh_slug_published:
  "refresh_slug E context slug (c, s) = (r, s') \<Longrightarrow> published s' = published s"
  by (auto simp: refresh_slug_def split: prod.splits sum.splits if_splits
      dest!: load_bb_file_published populate_published)

lemma refresh_slugs_published:
  "refresh_slugs E context slugs (c, s) = (r, s') \<Longrightarrow> published s' = published s"
proof (induction slugs arbitrary: c s)
  case Nil
  then show ?case by simp
next
  case (Cons slug slugs)
  then show ?case
    by (fastforce split: prod.splits sum.splits dest: refresh_slug_published)
qed

lemma refresh_contexts_published:
  "refresh_contexts E cs (c, s) = (r, s') \<Longrightarrow> published s' = published s"
proof (induction cs arbitrary: c s)
  case Nil
  then show ?case by simp
next
  case (Cons ctxt cs)
  then show ?case
    by (fastforce split: prod.splits sum.splits dest: refresh_slugs_published)
qed

section \<open>Publication\<close>

lemma str_int_0: "str_int 0 = ''0''"
  by code_simp

lemmas listing_defs = make_cache_def get_repo_names_def bb_rest_get_def first_rsp_def
  request.simps [of _ _ _ False] Let_def str_int_0 endswith_def skeleton_def term_org_def

lemma org_key_a: "org_key ''a-org'' = ''a''" "org_key ''c-org'' = ''c''" "org_key ''B-org'' = ''b''"
  by code_simp+

lemma demo_make_cache:
  "contexts s = [''ctx''] \<Longrightarrow>
   (case make_cache demo s of
      None \<Rightarrow> False
    | Some (r, s') \<Rightarrow> r = Inr demo_skeleton \<and> auth_token s' = auth_token s \<and> world s' = world s)"
  by (simp add: demo_defs listing_defs rest_loop.simps org_key_a)

text \<open>
  C1.  An exception that leaves \<^verbatim>\<open>refresh\<close> leaves the published cache and the
  refresh timestamp as they were.  A \<^verbatim>\<open>refresh\<close> that returns has built a skeleton,
  has run the loops over every context and org to their end, and publishes the cache
  they produced together with the time read last.  The constructor leaves the timestamp
  empty, so it stays empty until a \<^verbatim>\<open>refresh\<close> returns.
\<close>

theorem refresh_publishes_at_end:
  "(refresh E s = Some (Inl e, s') \<longrightarrow>
      cache s' = cache s \<and> cache_timestamp s' = cache_timestamp s) \<and>
   (refresh E s = Some (Inr u, s') \<longrightarrow>
      (\<exists>new_cache s1 s2.
          make_cache E (s\<lparr>world := snd (clock E (world s))\<rparr>) = Some (Inr new_cache, s1) \<and>
          refresh_contexts E (map fst new_cache) (new_cache, s1) = (Inr (cache s'), s2) \<and>
          cache_timestamp s' =
            Some (fst (clock E (snd (clock E (snd (clock E (world s2))))))))) \<and>
   (init E context_list w = Some (Inr s0) \<longrightarrow> cache_timestamp s0 = None)"
proof (intro conjI impI)
  assume "refresh E s = Some (Inl e, s')"
  then have "published s' = published s"
    by (auto simp: refresh_def make_cache_def published_def split: prod.splits option.splits sum.splits
        dest!: make_cache_loop_published refresh_contexts_published)
  then show "cache s' = cache s" and "cache_timestamp s' = cache_timestamp s"
    by (simp_all add: published_def)
next
  assume "refresh E s = Some (Inr u, s')"
  then show "\<exists>new_cache s1 s2.
          make_cache E (s\<lparr>world := snd (clock E (world s))\<rparr>) = Some (Inr new_cache, s1) \<and>
          refresh_contexts E (map fst new_cache) (new_cache, s1) = (Inr (cache s'), s2) \<and>
          cache_timestamp s' =
            Some (fst (clock E (snd (clock E (snd (clock E (world s2)))))))"
    by (auto simp: refresh_def split: prod.splits option.splits sum.splits)
next
  assume "init E context_list w = Some (Inr s0)"
  then show "cache_timestamp s0 = None"
    by (auto simp: init_def make_cache_def Let_def published_def get_oauth_token_def
        split: prod.splits option.splits sum.splits dest!: make_cache_loop_published)
qed

lemma demo_refresh:
  "(case refresh demo (idle [''ctx'']) of
      None \<Rightarrow> False
    | Some (r, s') \<Rightarrow> r = Inr () \<and> cache s' = demo_built \<and> cache_timestamp s' = Some 7)"
  by (simp add: refresh_def demo_defs listing_defs slug_defs rest_loop.simps org_key_a
      sluglist_def idle_def)

lemmas one_org_defs = one_org_def static_env_def repo_val_def page_val_def

lemma lower_zed: "lower ''zed'' = ''zed''" "lower ''a'' = ''a''"
  by code_simp+

lemma orphan_refresh:
  "contexts s = [''ctx''] \<Longrightarrow>
   map_option fst (refresh orphan s) = Some (Inl KeyError)"
  by (simp add: refresh_def orphan_def one_org_defs listing_defs slug_defs rest_loop.simps org_key_a
      sluglist_def lower_zed)

lemma demo_init:
  "map_option (map_sum id cache) (init demo [''ctx''] ()) = Some (Inr demo_skeleton)"
  by (simp add: init_def get_oauth_token_def demo_defs listing_defs rest_loop.simps org_key_a)

theorem refresh_publishes_at_end_witness:
  "map_option fst (refresh orphan served) = Some (Inl KeyError) \<and>
   map_option (published \<circ> snd) (refresh orphan served) = Some (demo_built, Some 3) \<and>
   map_option fst (refresh demo (idle [''ctx''])) = Some (Inr ()) \<and>
   map_option (published \<circ> snd) (refresh demo (idle [''ctx''])) = Some (demo_built, Some 7) \<and>
   map_option (map_sum id cache_timestamp) (init demo [''ctx''] ()) = Some (Inr None)"
proof -
  have ctx: "contexts served = [''ctx'']"
    by (simp add: served_def idle_def)
  obtain s' where bad: "refresh orphan served = Some (Inl KeyError, s')"
    using orphan_refresh [OF ctx] by (cases "refresh orphan served") auto
  obtain s'' where good: "refresh demo (idle [''ctx'']) = Some (Inr (), s'')"
    and built: "cache s'' = demo_built" and stamp: "cache_timestamp s'' = Some 7"
    using demo_refresh by (cases "refresh demo (idle [''ctx''])") auto
  obtain s0 where first: "init demo [''ctx''] () = Some (Inr s0)"
    using demo_init by (cases "init demo [''ctx''] ()") (auto simp: map_sum_def split: sum.splits)
  have "cache s' = cache served \<and> cache_timestamp s' = cache_timestamp served"
    using refresh_publishes_at_end [of orphan served KeyError s'] bad by simp
  moreover have "cache_timestamp s0 = None"
    using refresh_publishes_at_end [of demo "idle [''ctx'']" _ s'' "()" "[''ctx'']" "()" s0]
      good first by simp
  ultimately show ?thesis
    using bad good built stamp first by (simp add: published_def served_def)
qed

section \<open>Paginated listing\<close>

lemma rest_loop_paged:
  "paged E base prev s pages \<Longrightarrow>
     \<exists>s'. rest_loop E base prev rtn s = Some ((None, rtn @ all_items (map fst pages)), s')"
proof (induction pages arbitrary: prev rtn s)
  case Nil
  then show ?case
    by (subst rest_loop.simps) (auto simp: is_last_def all_items_def split: sum.splits)
next
  case (Cons ps pages)
  obtain p s1 where ps: "ps = (p, s1)" by (cases ps)
  from Cons.prems ps obtain l st items where
    l: "getitem_str prev ''isLastPage'' = Inr l" "\<not> truthy l" and
    st: "getitem_str prev ''nextPageStart'' = Inr st" and
    req: "request E (base @ ''?start='' @ py_str E st) True False s = (Inr p, s1)" and
    items: "page_items p = Some items" and
    rest: "paged E base p s1 pages"
    by (auto simp: is_last_def page_url_def split: sum.splits option.splits)
  from items obtain vs where vs: "getitem_str p ''values'' = Inr vs" "py_iter vs = Inr items"
    by (auto simp: page_items_def split: sum.splits)
  from Cons.IH [OF rest, of "rtn @ items"] obtain s' where
    "rest_loop E base p (rtn @ items) s1 = Some ((None, (rtn @ items) @ all_items (map fst pages)), s')"
    by blast
  then have "rest_loop E base prev rtn s = Some ((None, rtn @ all_items (map fst (ps # pages))), s')"
    using l st req vs items ps
    by (subst rest_loop.simps) (simp add: all_items_def)
  then show ?case by blast
qed

lemma rest_loop_broken:
  "broken E base prev s pages \<Longrightarrow>
     \<exists>e s'. rest_loop E base prev rtn s = Some ((Some e, rtn @ all_items (map fst pages)), s')"
proof (induction pages arbitrary: prev rtn s)
  case Nil
  then obtain l st where
    l: "getitem_str prev ''isLastPage'' = Inr l" "\<not> truthy l" and
    st: "getitem_str prev ''nextPageStart'' = Inr st" and
    failed: "isl (fst (request E (base @ ''?start='' @ py_str E st) True False s))"
    by (auto simp: is_last_def page_url_def split: sum.splits option.splits)
  from failed obtain e s1 where
    req: "request E (base @ ''?start='' @ py_str E st) True False s = (Inl e, s1)"
    by (cases "request E (base @ ''?start='' @ py_str E st) True False s") (auto simp: isl_def)
  with l st
  have "rest_loop E base prev rtn s = Some ((Some e, rtn @ all_items (map fst [])), s1)"
    by (subst rest_loop.simps) (simp add: all_items_def)
  then show ?case by blast
next
  case (Cons ps pages)
  obtain p s1 where ps: "ps = (p, s1)" by (cases ps)
  from Cons.prems ps obtain l st items where
    l: "getitem_str prev ''isLastPage'' = Inr l" "\<not> truthy l" and
    st: "getitem_str prev ''nextPageStart'' = Inr st" and
    req: "request E (base @ ''?start='' @ py_str E st) True False s = (Inr p, s1)" and
    items: "page_items p = Some items" and
    rest: "broken E base p s1 pages"
    by (auto simp: is_last_def page_url_def split: sum.splits option.splits)
  from items obtain vs where vs: "getitem_str p ''values'' = Inr vs" "py_iter vs = Inr items"
    by (auto simp: page_items_def split: sum.splits)
  from Cons.IH [OF rest, of "rtn @ items"] obtain e s' where
    "rest_loop E base p (rtn @ items) s1 = Some ((Some e, (rtn @ items) @ all_items (map fst pages)), s')"
    by blast
  then have "rest_loop E base prev rtn s = Some ((Some e, rtn @ all_items (map fst (ps # pages))), s')"
    using l st req vs items ps
    by (subst rest_loop.simps) (simp add: all_items_def)
  then show ?case by blast
qed

text \<open>
  C5.  Let the listing consist of pages of which every one but the last says
  \<^verbatim>\<open>isLastPage\<close> false and the last says true, each served at the offset that the
  page before it names in \<^verbatim>\<open>nextPageStart\<close>.  Then there is at least one page, the
  first request asks for offset 0, and \<^verbatim>\<open>_bb_rest_get\<close> returns the items of the pages
  in page order.
\<close>

theorem bb_rest_get_concat:
  assumes "paged E (bb_rest E @ ''/'' @ command) first_rsp s pages"
  shows "pages \<noteq> [] \<and>
         map_option fst (bb_rest_get E command s) = Some (all_items (map fst pages)) \<and>
         page_url E (bb_rest E @ ''/'' @ command) first_rsp =
           Some (bb_rest E @ ''/'' @ command @ ''?start=0'')"
proof -
  have "pages \<noteq> []"
    using assms by (cases pages) (auto simp: first_rsp_def is_last_def)
  moreover have "map_option fst (bb_rest_get E command s) = Some (all_items (map fst pages))"
    using rest_loop_paged [OF assms, of "[]"] by (auto simp: bb_rest_get_def)
  moreover have "str_int 0 = ''0''" by code_simp
  then have "page_url E (bb_rest E @ ''/'' @ command) first_rsp =
           Some (bb_rest E @ ''/'' @ command @ ''?start=0'')"
    by (simp add: page_url_def first_rsp_def)
  ultimately show ?thesis by blast
qed

text \<open>
  C3, as amended.  When the request for a page raises, whatever the exception,
  \<^verbatim>\<open>_bb_rest_get\<close> returns normally, and what it returns is the items of the pages read
  before: nothing when the first request fails.
\<close>

theorem bb_rest_get_partial:
  assumes "broken E (bb_rest E @ ''/'' @ command) first_rsp s pages"
  shows "map_option fst (bb_rest_get E command s) = Some (all_items (map fst pages))"
  using rest_loop_broken [OF assms, of "[]"] by (auto simp: bb_rest_get_def)

lemma str_int_small: "str_int 0 = ''0''" "str_int 2 = ''2''"
  by code_simp+

lemmas page_defs = two_pages_def static_env_def page_val_def page_one_def page_two_def
  after_get_def idle_def is_last_def page_items_def page_url_def first_rsp_def all_items_def
  request.simps [of _ _ _ False] Let_def str_int_small

theorem bb_rest_get_concat_witness:
  "map_option fst (bb_rest_get (two_pages True) ''x'' (idle [])) =
     Some [VInt 1, VInt 2, VInt 3]"
  using bb_rest_get_concat [of "two_pages True" "''x''" "idle []"
      "[(page_one, after_get ''rest/x?start=0'' (idle [])),
        (page_two, after_get ''rest/x?start=2'' (after_get ''rest/x?start=0'' (idle [])))]"]
  by (simp add: page_defs)

theorem bb_rest_get_partial_witness:
  "map_option fst (bb_rest_get (two_pages False) ''x'' (idle [])) = Some [VInt 1, VInt 2]"
  using bb_rest_get_partial [of "two_pages False" "''x''" "idle []"
      "[(page_one, after_get ''rest/x?start=0'' (idle []))]"]
  by (simp add: page_defs)

text \<open>C3 as stated fails: the second page request ends with status 404, and the two
  items of the first page are returned.\<close>

theorem bb_rest_get_prefix_counterexample:
  "fst (request (two_pages False) ''rest/x?start=2'' True False
         (after_get ''rest/x?start=0'' (idle []))) = Inl RequestNotOK \<and>
   map_option fst (bb_rest_get (two_pages False) ''x'' (idle [])) = Some [VInt 1, VInt 2]"
  by (simp add: page_defs bb_rest_get_def rest_loop.simps)

section \<open>The skeleton's keys\<close>

lemma str_items_strs: "str_items (map VStr xs) = Inr xs"
  by (induction xs) auto

lemma select_slugs_org_slugs:
  "\<forall>v \<in> set vs. str_field v ''name'' \<noteq> None \<and> str_field v ''slug'' \<noteq> None \<Longrightarrow>
     select_slugs vs = Inr (map VStr (org_slugs vs))"
proof (induction vs)
  case Nil
  then show ?case by (simp add: org_slugs_def map_filter_simps)
next
  case (Cons v vs)
  then have IH: "select_slugs vs = Inr (map VStr (org_slugs vs))" by simp
  from Cons.prems obtain n sl where
    "str_field v ''name'' = Some n" "str_field v ''slug'' = Some sl" by auto
  then have "getitem_str v ''name'' = Inr (VStr n)" "getitem_str v ''slug'' = Inr (VStr sl)"
    by (auto simp: str_field_def split: sum.splits val.splits)
  then show ?case
    using IH by (simp add: org_slugs_def map_filter_simps str_field_def)
qed

lemma get_repo_names_org_slugs:
  assumes "bb_rest_get E (ctxt @ ''/repos'') s = Some (vs, s')"
    and "\<forall>v \<in> set vs. str_field v ''name'' \<noteq> None \<and> str_field v ''slug'' \<noteq> None"
  shows "get_repo_names E ctxt s = Some (Inr (org_slugs vs), s')"
  using assms
  by (auto simp: get_repo_names_def select_slugs_org_slugs str_items_strs org_slugs_def
      map_filter_simps)

lemma foldl_update_keys:
  "fst ` set (foldl (\<lambda>d r. AList.update (f r) [] d) d0 rs) = fst ` set d0 \<union> f ` set rs"
  by (induction rs arbitrary: d0) (auto simp: dom_update)

lemma foldl_update_distinct:
  "distinct (map fst d0) \<Longrightarrow> distinct (map fst (foldl (\<lambda>d r. AList.update (f r) [] d) d0 rs))"
  by (induction rs arbitrary: d0) (auto simp: distinct_update)

lemma update_values: "snd ` set (AList.update k v al) \<subseteq> insert v (snd ` set al)"
  by (induction al) auto

lemma foldl_update_empty:
  "snd ` set d0 \<subseteq> {[]} \<Longrightarrow>
     snd ` set (foldl (\<lambda>d r. AList.update (f r) [] d) d0 rs) \<subseteq> {[]}"
proof (induction rs arbitrary: d0)
  case Nil
  then show ?case by simp
next
  case (Cons r rs)
  have "snd ` set (AList.update (f r) [] d0) \<subseteq> {[]}"
    using update_values [of "f r" "[]" d0] Cons.prems by auto
  then show ?case using Cons.IH by simp
qed

text \<open>
  C8, as amended.  For a context whose listing gives every repository a name and a slug,
  \<^verbatim>\<open>_make_cache\<close> stores for the context a skeleton whose keys are the lowercased slugs,
  marker stripped, of the repositories whose display name ends with \<^verbatim>\<open>-org\<close> and whose
  slug ends with \<^verbatim>\<open>-org\<close> too.  No key occurs twice, every entry is empty, and a
  repository whose display name does not end with the marker contributes no key.
\<close>

theorem skeleton_keys:
  assumes "bb_rest_get E (ctxt @ ''/repos'') s = Some (vs, s')"
    and "\<forall>v \<in> set vs. str_field v ''name'' \<noteq> None \<and> str_field v ''slug'' \<noteq> None"
  shows "make_cache_loop E (ctxt # cs) c s =
           make_cache_loop E cs (AList.update ctxt (skeleton (org_slugs vs)) c) s' \<and>
         fst ` set (skeleton (org_slugs vs)) =
           org_key ` {slug \<in> set (org_slugs vs). endswith slug ''-org''} \<and>
         distinct (map fst (skeleton (org_slugs vs))) \<and>
         snd ` set (skeleton (org_slugs vs)) \<subseteq> {[]}"
proof -
  have "make_cache_loop E (ctxt # cs) c s =
           make_cache_loop E cs (AList.update ctxt (skeleton (org_slugs vs)) c) s'"
    using get_repo_names_org_slugs [OF assms] by simp
  moreover have "fst ` set (skeleton (org_slugs vs)) =
           org_key ` {slug \<in> set (org_slugs vs). endswith slug ''-org''}"
    by (auto simp: skeleton_def foldl_update_keys term_org_def)
  moreover have "distinct (map fst (skeleton (org_slugs vs)))"
    by (simp add: skeleton_def foldl_update_distinct)
  moreover have "snd ` set (skeleton (org_slugs vs)) \<subseteq> {[]}"
    unfolding skeleton_def by (rule foldl_update_empty) simp
  ultimately show ?thesis by blast
qed

lemma demo_bb_rest_get:
  "bb_rest_get demo (''ctx'' @ ''/repos'') (idle [''ctx'']) =
     Some (demo_listing, after_get ''rest/ctx/repos?start=0'' (idle [''ctx'']))"
  by (simp add: demo_defs demo_listing_def bb_rest_get_def first_rsp_def rest_loop.simps
      request.simps [of _ _ _ False] str_int_0 after_get_def idle_def)

lemma demo_org_slugs: "org_slugs demo_listing = [''a-org'', ''c-org'', ''B-org'']"
  by (simp add: org_slugs_def demo_listing_def repo_val_def str_field_def map_filter_simps
      endswith_def)

theorem skeleton_keys_witness:
  "map_option fst (make_cache demo (idle [''ctx''])) = Some (Inr demo_skeleton) \<and>
   fst ` set (skeleton (org_slugs demo_listing)) = {''a'', ''c'', ''b''}"
proof -
  have wf: "\<forall>v \<in> set demo_listing. str_field v ''name'' \<noteq> None \<and> str_field v ''slug'' \<noteq> None"
    by (simp add: demo_listing_def repo_val_def str_field_def)
  have ctx: "contexts (idle [''ctx'']) = [''ctx'']"
    by (simp add: idle_def)
  have sk: "skeleton (org_slugs demo_listing) = [(''a'', []), (''c'', []), (''b'', [])]"
    by (simp add: demo_org_slugs skeleton_def endswith_def term_org_def org_key_a)
  from skeleton_keys [OF demo_bb_rest_get wf, of "[]" "[]"] sk ctx show ?thesis
    by (simp add: make_cache_def demo_skeleton_def del: make_cache_loop.simps(2))
qed

text \<open>C8 as stated fails: the display name ends with the marker, the slug does not, and
  the repository gets no key.\<close>

theorem skeleton_slug_filter_counterexample:
  "endswith ''a-org'' ''-org'' \<and>
   map_option fst (make_cache misnamed (idle [''ctx''])) = Some (Inr [(''ctx'', [])])"
  by (simp add: misnamed_def static_env_def page_val_def repo_val_def listing_defs rest_loop.simps
      idle_def)

section \<open>Security and space configuration go together\<close>

lemma list_all_update:
  "list_all P al \<Longrightarrow> P (k, v) \<Longrightarrow> list_all P (AList.update k v al)"
  by (induction al) auto

lemma store_pair_paired:
  assumes "store_pair space sec spc entry = Inr entry'"
    and "entry_paired entry" and "(sec = VNone) = (spc = VNone)"
  shows "entry_paired entry'"
proof -
  from assms(1) obtain d d1 d2 where
    d1: "setitem_str d ''security'' sec = Inr d1" and
    d2: "setitem_str d1 ''space_config'' spc = Inr d2" and
    e': "entry' = AList.update space d2 (AList.update space d1 entry)"
    by (auto simp: store_pair_def entry_get_def Let_def update_conv' split: sum.splits if_splits option.splits)
  from d1 obtain kvs where d: "d = VDict kvs" by (cases d) auto
  with d1 d2 have "paired d2"
    using assms(3) by (auto simp: paired_def update_conv')
  with assms(2) show ?thesis
    unfolding e' entry_paired_def update_last by (intro list_all_update) auto
qed

lemma load_bb_file_not_none:
  "load_bb_file E context slug filename j s = (Inr v, s') \<Longrightarrow> v \<noteq> VNone"
  by (auto simp: load_bb_file_def is_dict_or_list_def split: prod.splits option.splits if_splits)

lemma refresh_space_paired:
  assumes "refresh_space E context slug space (entry, s) = (Inr entry', s')"
    and "entry_paired entry"
  shows "entry_paired entry'"
  using assms
  by (auto simp: refresh_space_def Let_def split: prod.splits sum.splits if_splits
      dest!: load_bb_file_not_none elim!: store_pair_paired)

lemma refresh_spaces_paired:
  "refresh_spaces E context slug spaces (entry, s) = (Inr entry', s') \<Longrightarrow>
     entry_paired entry \<Longrightarrow> entry_paired entry'"
proof (induction spaces arbitrary: entry s)
  case Nil
  then show ?case by simp
next
  case (Cons space spaces)
  then show ?case
    by (auto split: prod.splits sum.splits dest: refresh_space_paired)
qed

lemma map_of_list_all: "list_all P al \<Longrightarrow> map_of al k = Some v \<Longrightarrow> P (k, v)"
  by (auto simp: list_all_iff dest: map_of_SomeD)

lemma refresh_spaces_none: "\<exists>spaces. refresh_spaces E context slug spaces (e, s) = (Inr e, s)"
  by (rule exI [of _ "[]"]) simp

lemma setitem_str_Inr:
  "setitem_str d k v = Inr d' \<longleftrightarrow> (\<exists>kvs. d = VDict kvs \<and> d' = VDict (AList.update (VStr k) v kvs))"
  by (cases d) auto

lemma populate_Inr:
  assumes "populate E context slug repo odict sdict (c, s) = (Inr c', s')"
  shows "\<exists>repolist entry entry3 spaces.
           map_of c context = Some repolist \<and> map_of repolist repo = Some entry \<and>
           refresh_spaces E context slug spaces
             (AList.update (VStr ''space'')
                (case sdict of None \<Rightarrow> VDict [(VStr ''spaces'', VDict [])] | Some sd \<Rightarrow> sd)
                (AList.update (VStr ''org'') odict entry), s) = (Inr entry3, s') \<and>
           c' = AList.update context (AList.update repo entry3 repolist) c"
proof (cases sdict)
  case None
  with assms obtain repolist entry where
    "map_of c context = Some repolist" "map_of repolist repo = Some entry" "s' = s"
    "c' = AList.update context
            (AList.update repo
               (AList.update (VStr ''space'') (VDict [(VStr ''spaces'', VDict [])])
                  (AList.update (VStr ''org'') odict entry)) repolist) c"
    by (auto simp: populate_def Let_def split: option.splits)
  with None show ?thesis
    by (intro exI [of _ repolist] exI [of _ entry] exI [of _ "[]"]
        exI [of _ "AList.update (VStr ''space'') (VDict [(VStr ''spaces'', VDict [])])
                     (AList.update (VStr ''org'') odict entry)"]) simp
next
  case (Some sd)
  with assms show ?thesis
    by (auto simp: populate_def Let_def split: option.splits sum.splits prod.splits)
qed

lemma populate_paired:
  assumes "populate E context slug repo odict sdict (c, s) = (Inr c', s')"
    and "cache_paired c"
  shows "cache_paired c'"
proof -
  from populate_Inr [OF assms(1)] obtain repolist entry entry3 spaces where
    rl: "map_of c context = Some repolist" and
    en: "map_of repolist repo = Some entry" and
    sp: "refresh_spaces E context slug spaces
           (AList.update (VStr ''space'')
              (case sdict of None \<Rightarrow> VDict [(VStr ''spaces'', VDict [])] | Some sd \<Rightarrow> sd)
              (AList.update (VStr ''org'') odict entry), s) = (Inr entry3, s')" and
    c': "c' = AList.update context (AList.update repo entry3 repolist) c"
    by blast
  have rl_ok: "list_all (\<lambda>(repo, entry). entry_paired entry) repolist"
    using map_of_list_all [OF assms(2) [unfolded cache_paired_def] rl] by simp
  then have "entry_paired entry"
    using map_of_list_all [OF _ en] by fastforce
  then have "entry_paired (AList.update (VStr ''space'')
              (case sdict of None \<Rightarrow> VDict [(VStr ''spaces'', VDict [])] | Some sd \<Rightarrow> sd)
              (AList.update (VStr ''org'') odict entry))"
    unfolding entry_paired_def by (intro list_all_update) (auto simp: space_key_def)
  with sp have "entry_paired entry3" by (rule refresh_spaces_paired)
  with rl_ok have "list_all (\<lambda>(repo, entry). entry_paired entry) (AList.update repo entry3 repolist)"
    by (intro list_all_update) auto
  with assms(2) show ?thesis
    unfolding c' cache_paired_def by (intro list_all_update) auto
qed

lemma refresh_slug_paired:
  "refresh_slug E context slug (c, s) = (Inr c', s') \<Longrightarrow> cache_paired c \<Longrightarrow> cache_paired c'"
  by (auto simp: refresh_slug_def split: prod.splits sum.splits if_splits dest: populate_paired)

lemma refresh_slugs_paired:
  "refresh_slugs E context slugs (c, s) = (Inr c', s') \<Longrightarrow> cache_paired c \<Longrightarrow> cache_paired c'"
proof (induction slugs arbitrary: c s)
  case Nil
  then show ?case by simp
next
  case (Cons slug slugs)
  then show ?case
    by (auto split: prod.splits sum.splits dest: refresh_slug_paired)
qed

lemma refresh_contexts_paired:
  "refresh_contexts E cs (c, s) = (Inr c', s') \<Longrightarrow> cache_paired c \<Longrightarrow> cache_paired c'"
proof (induction cs arbitrary: c s)
  case Nil
  then show ?case by simp
next
  case (Cons ctxt cs)
  then show ?case
    by (auto split: prod.splits sum.splits dest: refresh_slugs_paired)
qed

lemma skeleton_paired: "list_all (\<lambda>(repo, entry). entry_paired entry) (skeleton names)"
proof -
  have "snd ` set (skeleton names) \<subseteq> {[]}"
    unfolding skeleton_def by (rule foldl_update_empty) simp
  then show ?thesis
    by (fastforce simp: list_all_iff entry_paired_def)
qed

lemma make_cache_loop_paired:
  "make_cache_loop E cs c s = Some (Inr c', s') \<Longrightarrow> cache_paired c \<Longrightarrow> cache_paired c'"
proof (induction cs arbitrary: c s)
  case Nil
  then show ?case by simp
next
  case (Cons ctxt cs)
  from Cons.prems(1) obtain names s1 where
    "get_repo_names E ctxt s = Some (Inr names, s1)" and
    rest: "make_cache_loop E cs (AList.update ctxt (skeleton names) c) s1 = Some (Inr c', s')"
    by (auto split: option.splits prod.splits sum.splits)
  have "cache_paired (AList.update ctxt (skeleton names) c)"
    using Cons.prems(2) skeleton_paired [of names]
    unfolding cache_paired_def by (intro list_all_update) auto
  with rest show ?case by (rule Cons.IH)
qed

text \<open>
  C4.  In every cache that \<^verbatim>\<open>refresh\<close> publishes, every space of every org holds both
  \<^verbatim>\<open>security\<close> and \<^verbatim>\<open>space_config\<close>, and either both are \<^verbatim>\<open>None\<close> or neither is.
  The body of the space loop stores the two loaded documents when both files load, and
  \<^verbatim>\<open>None\<close> for both as soon as one of them fails to load.
\<close>

theorem security_and_config_paired:
  "(refresh E s = Some (Inr u, s') \<longrightarrow> cache_paired (cache s')) \<and>
   (refresh_space E context slug space (entry, s) = (Inr entry', s'') \<longrightarrow>
      (case map_of entry' space of
         None \<Rightarrow> False
       | Some d \<Rightarrow>
           (case load_bb_file E context slug (py_str E space @ ''/security-group.json'') True s of
              (Inl e, s1) \<Rightarrow>
                getitem_str d ''security'' = Inr VNone \<and> getitem_str d ''space_config'' = Inr VNone
            | (Inr sec, s1) \<Rightarrow>
                (case load_bb_file E context slug (py_str E space @ ''/spaceConfig.yml'') False s1 of
                   (Inl e, s2) \<Rightarrow>
                     getitem_str d ''security'' = Inr VNone \<and>
                     getitem_str d ''space_config'' = Inr VNone
                 | (Inr spc, s2) \<Rightarrow>
                     getitem_str d ''security'' = Inr sec \<and> sec \<noteq> VNone \<and>
                     getitem_str d ''space_config'' = Inr spc \<and> spc \<noteq> VNone))))"
proof (intro conjI impI)
  assume "refresh E s = Some (Inr u, s')"
  then obtain w0 new_cache s1 s2 where
    mk: "make_cache_loop E (contexts (s\<lparr>world := w0\<rparr>)) [] (s\<lparr>world := w0\<rparr>) = Some (Inr new_cache, s1)" and
    rf: "refresh_contexts E (map fst new_cache) (new_cache, s1) = (Inr (cache s'), s2)"
    by (auto simp: refresh_def make_cache_def split: prod.splits option.splits sum.splits)
  have "cache_paired new_cache"
    using mk by (rule make_cache_loop_paired) (simp add: cache_paired_def)
  with rf show "cache_paired (cache s')" by (rule refresh_contexts_paired)
next
  assume "refresh_space E context slug space (entry, s) = (Inr entry', s'')"
  then show "case map_of entry' space of
         None \<Rightarrow> False
       | Some d \<Rightarrow>
           (case load_bb_file E context slug (py_str E space @ ''/security-group.json'') True s of
              (Inl e, s1) \<Rightarrow>
                getitem_str d ''security'' = Inr VNone \<and> getitem_str d ''space_config'' = Inr VNone
            | (Inr sec, s1) \<Rightarrow>
                (case load_bb_file E context slug (py_str E space @ ''/spaceConfig.yml'') False s1 of
                   (Inl e, s2) \<Rightarrow>
                     getitem_str d ''security'' = Inr VNone \<and>
                     getitem_str d ''space_config'' = Inr VNone
                 | (Inr spc, s2) \<Rightarrow>
                     getitem_str d ''security'' = Inr sec \<and> sec \<noteq> VNone \<and>
                     getitem_str d ''space_config'' = Inr spc \<and> spc \<noteq> VNone))"
    by (auto simp: refresh_space_def store_pair_def entry_get_def Let_def update_conv'
        setitem_str_Inr
        split: prod.splits sum.splits if_splits option.splits
        dest: load_bb_file_not_none)
qed

theorem security_and_config_paired_witness:
  "cache_paired demo_built \<and>
   fst (load_bb_file demo ''ctx'' ''b-org'' ''s2/security-group.json'' True (idle [''ctx''])) =
     Inr (VList [VStr ''other'']) \<and>
   fst (refresh_space demo ''ctx'' ''b-org'' (VStr ''s2'') ([], idle [''ctx''])) =
     Inr [(VStr ''s2'', VDict [(VStr ''security'', VNone), (VStr ''space_config'', VNone)])]"
proof -
  obtain s' where good: "refresh demo (idle [''ctx'']) = Some (Inr (), s')"
    and built: "cache s' = demo_built"
    using demo_refresh by (cases "refresh demo (idle [''ctx''])") auto
  obtain r s'' where step:
    "refresh_space demo ''ctx'' ''b-org'' (VStr ''s2'') ([], idle [''ctx'']) = (r, s'')"
    by (cases "refresh_space demo ''ctx'' ''b-org'' (VStr ''s2'') ([], idle [''ctx''])") auto
  have sec: "fst (load_bb_file demo ''ctx'' ''b-org'' ''s2/security-group.json'' True (idle [''ctx''])) =
     Inr (VList [VStr ''other''])"
    by (simp add: demo_defs slug_defs)
  have r: "r = Inr [(VStr ''s2'', VDict [(VStr ''security'', VNone), (VStr ''space_config'', VNone)])]"
    using step by (simp add: demo_defs slug_defs)
  have "cache_paired (cache s')"
    using security_and_config_paired [of demo "idle [''ctx'']" "()" s' "''ctx''" "''b-org''"
        "VStr ''s2''" "[]" "[(VStr ''s2'', VDict [(VStr ''security'', VNone), (VStr ''space_config'', VNone)])]" s'']
      good by simp
  with built sec step r show ?thesis by simp
qed

section \<open>Where a refresh is abandoned\<close>

lemma load_bb_file_exn:
  "load_bb_file E context slug filename j s = (Inl e, s') \<Longrightarrow> e = BBFileLoadFailure"
  by (auto simp: load_bb_file_def split: prod.splits option.splits if_splits)

text \<open>When \<^verbatim>\<open>spaces.yml\<close> fails to load, the org still gets its \<^verbatim>\<open>org\<close> data and an
  empty list of spaces, and the loop goes on.\<close>

lemma refresh_slug_spaces_load_failure:
  assumes "load_bb_file E context slug ''orgConfig.yml'' False s = (Inr odict, s1)"
    and "declared_org odict = Inr repo"
    and "load_bb_file E context slug ''spaces.yml'' False s1 = (Inl e, s2)"
    and "map_of c context = Some repolist" and "map_of repolist repo = Some entry"
  shows "refresh_slug E context slug (c, s) =
           (Inr (AList.update context
                   (AList.update repo
                      (AList.update (VStr ''space'') (VDict [(VStr ''spaces'', VDict [])])
                         (AList.update (VStr ''org'') odict entry)) repolist) c), s2)"
  using assms load_bb_file_exn [OF assms(3)]
  by (simp add: refresh_slug_def populate_def)

text \<open>An org that declares a name which is no key of the skeleton ends the loop with a
  \<open>KeyError\<close>.\<close>

lemma refresh_slug_unknown_key:
  assumes "load_bb_file E context slug ''orgConfig.yml'' False s = (Inr odict, s1)"
    and "declared_org odict = Inr repo"
    and "map_of c context = Some repolist" and "map_of repolist repo = None"
  shows "fst (refresh_slug E context slug (c, s)) = Inl KeyError"
  using assms
  by (auto simp: refresh_slug_def populate_def split: prod.splits sum.splits dest: load_bb_file_exn)

text \<open>
  C2, at a failing input.  \<^verbatim>\<open>spaces.yml\<close> loads as a mapping that has no \<^verbatim>\<open>spaces\<close>
  field.  Reading the field raises a \<open>KeyError\<close> that nothing catches: it leaves
  \<^verbatim>\<open>refresh\<close>, where the claim has the org keep its \<^verbatim>\<open>org\<close> data with an empty list of
  spaces and the cycle go on.
\<close>

theorem refresh_spaces_field_missing:
  "fst (load_bb_file no_spaces ''ctx'' ''a-org'' ''spaces.yml'' False (idle [''ctx''])) =
     Inr (VDict [(VStr ''owner'', VStr ''x'')]) \<and>
   map_option fst (refresh no_spaces (idle [''ctx''])) = Some (Inl KeyError)"
  by (simp add: refresh_def no_spaces_def one_org_defs listing_defs slug_defs rest_loop.simps
      org_key_a sluglist_def lower_zed idle_def)

text \<open>
  C7, at a failing input.  The org file of the repository \<^verbatim>\<open>a-org\<close> declares the org
  \<^verbatim>\<open>zed\<close>; the skeleton has the key \<^verbatim>\<open>a\<close> only.  Storing under the declared key raises a
  \<open>KeyError\<close> that leaves \<^verbatim>\<open>refresh\<close>, where the claim has the data appear under the
  new key.
\<close>

theorem refresh_declared_key_unknown:
  "declared_org (VDict [(VStr ''org'', VStr ''zed'')]) = Inr ''zed'' \<and>
   map_option fst (make_cache orphan (idle [''ctx''])) = Some (Inr [(''ctx'', [(''a'', [])])]) \<and>
   map_option fst (refresh orphan (idle [''ctx''])) = Some (Inl KeyError)"
  by (simp add: refresh_def orphan_def one_org_defs listing_defs slug_defs rest_loop.simps
      org_key_a sluglist_def lower_zed idle_def)

section \<open>A failing org does not end the loop\<close>







end
